theory Spec2Isabelle
  imports Complex_Main "HOL-Library.Log_Nat"
begin

section \<open>Data model (api/models.py)\<close>

text \<open>
  Primary keys are UUIDs in the source; here they are natural numbers. Only their
  equality and their order are used. A point in time (Python \<open>datetime\<close>) is an
  integer number of microseconds, a \<open>timedelta\<close> a difference of such numbers.
\<close>

datatype role = Creator | Consumer

record user =
  user_id :: nat
  user_role :: role

text \<open>
  \<open>Photo\<close>: \<open>image\<close> is \<open>None\<close> when the file field is empty (\<open>not obj.image\<close>) and
  otherwise holds \<open>obj.image.url\<close>. \<open>average_rating\<close> is a
  \<open>DecimalField(max_digits=3, decimal_places=2)\<close>, held as a rational.
\<close>

record photo =
  photo_id :: nat
  creator :: nat
  is_published :: bool
  image :: "string option"
  views_count :: int
  average_rating :: rat

record rating =
  rating_id :: nat
  rating_photo :: nat
  rating_user :: nat
  score :: int

record photo_view =
  view_photo :: nat
  view_user :: "nat option"
  ip_address :: "string option"
  user_agent :: string
  viewed_at :: int

text \<open>The tables, each as the list of its rows in the order in which they are stored.\<close>

record db =
  photos :: "photo list"
  ratings :: "rating list"
  views :: "photo_view list"

definition timedelta :: "int \<Rightarrow> int \<Rightarrow> int" where
  \<comment> \<open>\<open>timedelta(days=d, hours=h)\<close> in microseconds\<close>
  "timedelta d h = ((d * 24 + h) * 3600) * 1000000"

section \<open>Image URLs (api/serializers.py, get_image)\<close>

text \<open>Python's \<open>s.startswith(t)\<close> and \<open>t in s\<close> on strings.\<close>

fun startswith :: "string \<Rightarrow> string \<Rightarrow> bool" where
  "startswith s [] = True"
| "startswith [] (c # t) = False"
| "startswith (d # s) (c # t) = (d = c \<and> startswith s t)"

fun contains :: "string \<Rightarrow> string \<Rightarrow> bool" where
  "contains [] t = (t = [])"
| "contains (d # s) t = (startswith (d # s) t \<or> contains s t)"

definition lstrip_slash :: "string \<Rightarrow> string" where
  \<comment> \<open>\<open>s.lstrip('/')\<close>\<close>
  "lstrip_slash s = dropWhile (\<lambda>c. c = CHR ''/'') s"

definition blob_name_of :: "string \<Rightarrow> string" where
  \<comment> \<open>\<open>blob_path.split('/', 1)[1] if '/' in blob_path else blob_path\<close>\<close>
  "blob_name_of blob_path =
     (if CHR ''/'' \<in> set blob_path
      then tl (dropWhile (\<lambda>c. c \<noteq> CHR ''/'') blob_path)
      else blob_path)"

text \<open>
  The arguments that \<open>get_image\<close> hands to \<open>generate_blob_sas\<close>. The permission is
  always \<open>BlobSasPermissions(read=True)\<close>.
\<close>

record sas_args =
  account_name :: string
  container_name :: string
  blob_name :: string
  account_key :: string
  permission_read :: bool
  expiry :: int

text \<open>The three values read from \<open>django.conf.settings\<close>.\<close>

record settings =
  AZURE_ACCOUNT_NAME :: string
  AZURE_CONTAINER :: string
  AZURE_ACCOUNT_KEY :: string

text \<open>
  \<open>PhotoListSerializer.get_image\<close> and \<open>PhotoDetailSerializer.get_image\<close> have the
  same body. Two library functions are parameters: \<open>urlpath\<close> stands for
  \<open>urlparse(url).path\<close> and \<open>generate_blob_sas\<close> for the function of that name in
  \<open>azure.storage.blob\<close>; \<open>utcnow\<close> is the value of \<open>datetime.utcnow()\<close>.
\<close>

definition get_image ::
  "(string \<Rightarrow> string) \<Rightarrow> (sas_args \<Rightarrow> string) \<Rightarrow> settings \<Rightarrow> int \<Rightarrow> photo \<Rightarrow> string option"
where
  "get_image urlpath generate_blob_sas cfg utcnow obj =
     (case image obj of
        None \<Rightarrow> None
      | Some url \<Rightarrow>
          if contains url ''blob.core.windows.net'' then
            let blob_path = lstrip_slash (urlpath url);
                sas_token = generate_blob_sas
                  \<lparr>account_name = AZURE_ACCOUNT_NAME cfg,
                   container_name = AZURE_CONTAINER cfg,
                   blob_name = blob_name_of blob_path,
                   account_key = AZURE_ACCOUNT_KEY cfg,
                   permission_read = True,
                   expiry = utcnow + timedelta 0 1\<rparr>
            in Some (url @ ''?'' @ sas_token)
          else Some url)"

definition list_get_image ::
  "(string \<Rightarrow> string) \<Rightarrow> (sas_args \<Rightarrow> string) \<Rightarrow> settings \<Rightarrow> int \<Rightarrow> photo \<Rightarrow> string option"
where
  "list_get_image = get_image"

definition detail_get_image ::
  "(string \<Rightarrow> string) \<Rightarrow> (sas_args \<Rightarrow> string) \<Rightarrow> settings \<Rightarrow> int \<Rightarrow> photo \<Rightarrow> string option"
where
  "detail_get_image = get_image"

section \<open>Photo queries (api/views.py, PhotoViewSet)\<close>

text \<open>
  What the views read of a request: the authenticated user (\<open>None\<close> for an
  anonymous caller) and the query parameters \<open>creator\<close> and \<open>exclude\<close> (\<open>None\<close> when
  absent or empty, which is what \<open>if creator_param:\<close> tests). The parameters of the
  filter backends (\<open>location\<close>, \<open>search\<close>, \<open>ordering\<close>) are taken to be absent; the
  trending action does not consult them in any case.
\<close>

record request =
  req_user :: "user option"
  creator_param :: "nat option"
  exclude_param :: "nat option"

definition get_queryset :: "db \<Rightarrow> request \<Rightarrow> photo list" where
  "get_queryset d r =
     (let queryset = photos d;
          queryset =
            (case creator_param r of
               Some c \<Rightarrow> filter (\<lambda>p. creator p = c \<and> is_published p) queryset
             | None \<Rightarrow>
                 (case req_user r of
                    Some u \<Rightarrow>
                      if user_role u = Creator
                      then filter (\<lambda>p. is_published p \<or> creator p = user_id u) queryset
                      else filter is_published queryset
                  | None \<Rightarrow> filter is_published queryset))
      in case exclude_param r of
           Some e \<Rightarrow> filter (\<lambda>p. photo_id p \<noteq> e) queryset
         | None \<Rightarrow> queryset)"

definition recent_views :: "db \<Rightarrow> int \<Rightarrow> photo \<Rightarrow> nat" where
  \<comment> \<open>\<open>Count('views', filter=Q(views__viewed_at__gte=week_ago))\<close>\<close>
  "recent_views d week_ago p =
     length (filter (\<lambda>v. view_photo v = photo_id p \<and> week_ago \<le> viewed_at v) (views d))"

text \<open>
  The annotation makes the query an aggregate grouped by the photo's primary key, and
  the database yields the groups in key order, whatever the order in which the photos
  were stored. \<open>order_by('-recent_views')\<close> names no second key and sorts these rows
  stably, so rows with equal counts stay in ascending key order.
\<close>

definition order_by_recent_views_desc :: "(photo \<times> nat) list \<Rightarrow> (photo \<times> nat) list" where
  "order_by_recent_views_desc rows =
     sort_key (\<lambda>row. - int (snd row)) (sort_key (\<lambda>row. photo_id (fst row)) rows)"

text \<open>
  \<open>PhotoViewSet.trending\<close>, up to serialisation: the annotated rows of the sliced
  queryset. (The serializer then drops the annotation.)
\<close>

definition trending :: "db \<Rightarrow> request \<Rightarrow> int \<Rightarrow> (photo \<times> nat) list" where
  "trending d r now =
     (let week_ago = now - timedelta 7 0
      in take 20 (order_by_recent_views_desc
                    (map (\<lambda>p. (p, recent_views d week_ago p)) (get_queryset d r))))"

section \<open>Ratings (api/models.py, api/serializers.py, api/views.py)\<close>

text \<open>
  What a request can end in instead of its result: the two error responses that
  \<open>rate_photo\<close> builds itself, and the exceptions raised on the way.
\<close>

datatype error =
    HTTP_400_BAD_REQUEST
  | HTTP_404_NOT_FOUND
  | NotAuthenticated
  | ValidationError
  | MultipleObjectsReturned
  | IntegrityError
  | InvalidOperation

definition round_half_even :: "rat \<Rightarrow> int" where
  "round_half_even x =
     (let n = \<lfloor>x\<rfloor>; f = x - of_int n
      in if f < 1 / 2 then n else if 1 / 2 < f then n + 1 else if even n then n else n + 1)"

text \<open>
  A Python float is a binary double. \<open>float_of_rat x\<close> is the double nearest to \<open>x\<close>
  (ties to the even significand), as a rational: \<open>binade x\<close> is the \<open>e\<close> with
  \<open>2^e \<le> x < 2^(e+1)\<close> for a positive \<open>x\<close>, and the 53-bit significand is counted in
  units of \<open>2^(e-52)\<close>. The exponent range of doubles is not modelled (no overflow, no
  subnormal numbers).
\<close>

definition binade :: "rat \<Rightarrow> int" where
  "binade x = (if 1 \<le> x then bitlen \<lfloor>x\<rfloor> - 1 else - bitlen (\<lceil>1 / x\<rceil> - 1))"

definition float_of_rat :: "rat \<Rightarrow> rat" where
  "float_of_rat x =
     (if x = 0 then 0
      else let ulp = 2 powi (binade \<bar>x\<bar> - 52)
           in sgn x * of_int (round_half_even (\<bar>x\<bar> / ulp)) * ulp)"

text \<open>
  \<open>Avg('score')\<close> over a set of ratings: \<open>None\<close> for no rows, else the mean as a float.
\<close>

definition Avg_score :: "rating list \<Rightarrow> rat option" where
  "Avg_score rs =
     (if rs = [] then None
      else Some (float_of_rat (of_int (sum_list (map score rs)) / of_nat (length rs))))"

text \<open>
  Storing a float into \<open>DecimalField(max_digits=3, decimal_places=2)\<close>. The field first
  makes the float a decimal of three significant digits (rounding half to even;
  \<open>decade x\<close> is the \<open>k\<close> with \<open>10^k \<le> x < 10^(k+1)\<close> for a positive \<open>x\<close>), then brings
  it to two decimal places, and refuses with \<open>decimal.InvalidOperation\<close> a result that
  needs more than three digits.
\<close>

definition decade :: "rat \<Rightarrow> int" where
  "decade x =
     (if 1 \<le> x then int (floorlog 10 (nat \<lfloor>x\<rfloor>)) - 1
      else - int (floorlog 10 (nat (\<lceil>1 / x\<rceil> - 1))))"

definition round_significant3 :: "rat \<Rightarrow> rat" where
  "round_significant3 x =
     (if x = 0 then 0
      else let unit = 10 powi (decade \<bar>x\<bar> - 2)
           in sgn x * of_int (round_half_even (\<bar>x\<bar> / unit)) * unit)"

definition to_decimal_field :: "rat \<Rightarrow> error + rat" where
  "to_decimal_field x =
     (let y = round_significant3 x;
          q = of_int (round_half_even (y * 100)) / 100
      in if 10 \<le> \<bar>q\<bar> then Inl InvalidOperation else Inr q)"

text \<open>
  What \<open>update_average_rating\<close> stores for a photo whose scores have the given sum and
  number: the mean as a float, 0 for no scores, brought into the decimal field.
\<close>

definition average_for :: "int \<Rightarrow> nat \<Rightarrow> error + rat" where
  "average_for score_sum n =
     to_decimal_field (if n = 0 then 0 else float_of_rat (of_int score_sum / of_nat n))"

definition update_average_rating :: "db \<Rightarrow> nat \<Rightarrow> error + db" where
  \<comment> \<open>\<open>Photo.update_average_rating\<close> for the photo with the given id\<close>
  "update_average_rating d pid =
     (let result = Avg_score (filter (\<lambda>r. rating_photo r = pid) (ratings d));
          avg = (case result of None \<Rightarrow> 0 | Some a \<Rightarrow> a)
      in case to_decimal_field avg of
           Inl e \<Rightarrow> Inl e
         | Inr v \<Rightarrow>
             Inr (d\<lparr>photos :=
                      map (\<lambda>p. if photo_id p = pid then p\<lparr>average_rating := v\<rparr> else p)
                        (photos d)\<rparr>))"

text \<open>
  \<open>Rating.save\<close>: the row is written (inserted when \<open>force_insert\<close>, else updated in
  place by primary key), then the photo's average is recomputed.
\<close>

definition Rating_save :: "bool \<Rightarrow> db \<Rightarrow> rating \<Rightarrow> error + db" where
  "Rating_save force_insert d obj =
     (if force_insert then
        (if rating_id obj \<in> rating_id ` set (ratings d) then Inl IntegrityError
         else update_average_rating (d\<lparr>ratings := ratings d @ [obj]\<rparr>) (rating_photo obj))
      else
        update_average_rating
          (d\<lparr>ratings := map (\<lambda>r. if rating_id r = rating_id obj then obj else r) (ratings d)\<rparr>)
          (rating_photo obj))"

text \<open>
  \<open>Rating.objects.update_or_create(user=u, photo=p, defaults={'score': s})\<close>. It runs
  in a transaction, so an exception leaves the database as it was: the result is either
  an error or the new database with the rating and the \<open>created\<close> flag. \<open>new_id\<close> is the
  value \<open>uuid.uuid4()\<close> gives a new row.
\<close>

definition update_or_create :: "db \<Rightarrow> nat \<Rightarrow> nat \<Rightarrow> int \<Rightarrow> nat \<Rightarrow> error + (db \<times> rating \<times> bool)" where
  "update_or_create d u p s new_id =
     (case filter (\<lambda>r. rating_user r = u \<and> rating_photo r = p) (ratings d) of
        [] \<Rightarrow>
          (let obj = \<lparr>rating_id = new_id, rating_photo = p, rating_user = u, score = s\<rparr>
           in case Rating_save True d obj of
                Inl e \<Rightarrow> Inl e
              | Inr d' \<Rightarrow> Inr (d', obj, True))
      | [old] \<Rightarrow>
          (let obj = old\<lparr>score := s\<rparr>
           in case Rating_save False d obj of
                Inl e \<Rightarrow> Inl e
              | Inr d' \<Rightarrow> Inr (d', obj, False))
      | _ \<Rightarrow> Inl MultipleObjectsReturned)"

text \<open>
  \<open>RatingViewSet.rate_photo\<close>. The request carries the user (\<open>None\<close> when anonymous) and
  the body fields \<open>photo\<close> and \<open>score\<close> (\<open>None\<close> when missing); \<open>not score\<close> also holds for
  the number 0. The result pairs the response with the database after the call;
  \<open>Inr (rating, created)\<close> is status 201 when \<open>created\<close> and 200 otherwise.
\<close>

definition rate_photo ::
  "db \<Rightarrow> user option \<Rightarrow> nat option \<Rightarrow> int option \<Rightarrow> nat \<Rightarrow> (error + rating \<times> bool) \<times> db"
where
  "rate_photo d usr photo_field score_field new_id =
     (case usr of
        None \<Rightarrow> (Inl NotAuthenticated, d)
      | Some u \<Rightarrow>
          (case (photo_field, score_field) of
             (Some pid, Some s) \<Rightarrow>
               if s = 0 then (Inl HTTP_400_BAD_REQUEST, d)
               else
                 (case find (\<lambda>p. photo_id p = pid) (photos d) of
                    None \<Rightarrow> (Inl HTTP_404_NOT_FOUND, d)
                  | Some ph \<Rightarrow>
                      (case update_or_create d (user_id u) (photo_id ph) s new_id of
                         Inl e \<Rightarrow> (Inl e, d)
                       | Inr (d', obj, created) \<Rightarrow> (Inr (obj, created), d')))
           | _ \<Rightarrow> (Inl HTTP_400_BAD_REQUEST, d)))"

definition validate_score :: "int \<Rightarrow> error + int" where
  \<comment> \<open>\<open>RatingSerializer.validate_score\<close>\<close>
  "validate_score v = (if v < 1 \<or> 5 < v then Inl ValidationError else Inr v)"

text \<open>
  \<open>POST /api/ratings/\<close>: the \<open>create\<close> action of \<open>RatingViewSet\<close> with
  \<open>RatingSerializer\<close>. The serializer requires both fields, resolves \<open>photo\<close> to an
  existing photo, validates the score, and then upserts in \<open>RatingSerializer.create\<close>.
\<close>

definition RatingViewSet_create ::
  "db \<Rightarrow> user option \<Rightarrow> nat option \<Rightarrow> int option \<Rightarrow> nat \<Rightarrow> (error + rating) \<times> db"
where
  "RatingViewSet_create d usr photo_field score_field new_id =
     (case usr of
        None \<Rightarrow> (Inl NotAuthenticated, d)
      | Some u \<Rightarrow>
          (case (photo_field, score_field) of
             (Some pid, Some s) \<Rightarrow>
               (case find (\<lambda>p. photo_id p = pid) (photos d) of
                  None \<Rightarrow> (Inl ValidationError, d)
                | Some ph \<Rightarrow>
                    (case validate_score s of
                       Inl e \<Rightarrow> (Inl e, d)
                     | Inr v \<Rightarrow>
                         (case update_or_create d (user_id u) (photo_id ph) v new_id of
                            Inl e \<Rightarrow> (Inl e, d)
                          | Inr (d', obj, created) \<Rightarrow> (Inr obj, d'))))
           | _ \<Rightarrow> (Inl ValidationError, d)))"

text \<open>
  \<open>DELETE /api/ratings/<id>/\<close>: the \<open>destroy\<close> action that \<open>RatingViewSet\<close> inherits
  from \<open>ModelViewSet\<close> and opens to every authenticated user (request without
  \<open>photo\<close> or \<open>user\<close> query parameters). It deletes the row; \<open>Rating\<close> overrides
  \<open>save\<close> only, so nothing else runs.
\<close>

definition RatingViewSet_destroy :: "db \<Rightarrow> user option \<Rightarrow> nat \<Rightarrow> (error + unit) \<times> db" where
  "RatingViewSet_destroy d usr rid =
     (case usr of
        None \<Rightarrow> (Inl NotAuthenticated, d)
      | Some u \<Rightarrow>
          (case find (\<lambda>r. rating_id r = rid) (ratings d) of
             None \<Rightarrow> (Inl HTTP_404_NOT_FOUND, d)
           | Some instance \<Rightarrow>
               (Inr (), d\<lparr>ratings := filter (\<lambda>r. rating_id r \<noteq> rating_id instance) (ratings d)\<rparr>)))"

text \<open>
  The aggregates the specification speaks of, read off the rating rows of a photo
  (\<open>rating_count\<close> is also what the serializers' \<open>get_rating_count\<close> returns).
\<close>

definition rating_count :: "db \<Rightarrow> nat \<Rightarrow> nat" where
  "rating_count d pid = length (filter (\<lambda>r. rating_photo r = pid) (ratings d))"

definition rating_sum :: "db \<Rightarrow> nat \<Rightarrow> int" where
  "rating_sum d pid = sum_list (map score (filter (\<lambda>r. rating_photo r = pid) (ratings d)))"


text \<open>
  What the specification requires of the stored average: the mean of the photo's scores
  rounded to two places, and 0 without ratings.
\<close>

definition spec_average :: "db \<Rightarrow> nat \<Rightarrow> rat" where
  "spec_average d pid =
     (if rating_count d pid = 0 then 0
      else of_int (round_half_even
             (of_int (rating_sum d pid) / of_nat (rating_count d pid) * 100)) / 100)"

section \<open>Recording views (api/views.py, PhotoViewSet.retrieve)\<close>

text \<open>
  One call of the detail endpoint: the request, the primary key in the URL, the value of
  \<open>get_client_ip(request)\<close>, the \<open>User-Agent\<close> header, and the time at which the
  \<open>PhotoView\<close> row is written (\<open>auto_now_add\<close>).
\<close>

record view_call =
  call_request :: request
  call_pk :: nat
  call_ip :: "string option"
  call_agent :: string
  call_time :: int

definition get_object :: "db \<Rightarrow> request \<Rightarrow> nat \<Rightarrow> photo option" where
  \<comment> \<open>\<open>self.get_object()\<close>: the row of the request's queryset with that key, else a 404\<close>
  "get_object d r pk = find (\<lambda>p. photo_id p = pk) (get_queryset d r)"

definition PhotoView_create :: "db \<Rightarrow> photo \<Rightarrow> view_call \<Rightarrow> db" where
  "PhotoView_create d instance c =
     d\<lparr>views := views d @
        [\<lparr>view_photo = photo_id instance,
          view_user = map_option user_id (req_user (call_request c)),
          ip_address = call_ip c,
          user_agent = take 255 (call_agent c),
          viewed_at = call_time c\<rparr>]\<rparr>"

definition save_views_count :: "db \<Rightarrow> photo \<Rightarrow> db" where
  \<comment> \<open>\<open>instance.save(update_fields=['views_count'])\<close>\<close>
  "save_views_count d instance =
     d\<lparr>photos :=
         map (\<lambda>p. if photo_id p = photo_id instance
                   then p\<lparr>views_count := views_count instance\<rparr> else p)
           (photos d)\<rparr>"

text \<open>
  \<open>retrieve\<close> run from start to end with nothing in between: the instance as it is
  serialised, and the database after the call.
\<close>

definition retrieve :: "db \<Rightarrow> view_call \<Rightarrow> (error + photo) \<times> db" where
  "retrieve d c =
     (case get_object d (call_request c) (call_pk c) of
        None \<Rightarrow> (Inl HTTP_404_NOT_FOUND, d)
      | Some instance \<Rightarrow>
          (let d1 = PhotoView_create d instance c;
               instance = instance\<lparr>views_count := views_count instance + 1\<rparr>;
               d2 = save_views_count d1 instance
           in (Inr instance, d2)))"

fun retrieve_all :: "db \<Rightarrow> view_call list \<Rightarrow> db" where
  "retrieve_all d [] = d"
| "retrieve_all d (c # cs) = retrieve_all (snd (retrieve d c)) cs"

text \<open>
  The same three statements as separate steps, so that calls can overlap. \<open>retrieve\<close>
  touches the database three times (the SELECT of \<open>get_object\<close>, the INSERT of the
  \<open>PhotoView\<close>, the UPDATE of \<open>views_count\<close>) and holds the instance in memory in
  between; the source wraps them in no transaction and takes no lock. A call is in one
  of these stages:
\<close>

datatype stage =
    Pending
  | Loaded photo
  | Tracked photo
  | Finished photo
  | Failed error

definition retrieve_step :: "db \<Rightarrow> view_call \<Rightarrow> stage \<Rightarrow> db \<times> stage" where
  "retrieve_step d c st =
     (case st of
        Pending \<Rightarrow>
          (case get_object d (call_request c) (call_pk c) of
             None \<Rightarrow> (d, Failed HTTP_404_NOT_FOUND)
           | Some instance \<Rightarrow> (d, Loaded instance))
      | Loaded instance \<Rightarrow> (PhotoView_create d instance c, Tracked instance)
      | Tracked instance \<Rightarrow>
          (let instance = instance\<lparr>views_count := views_count instance + 1\<rparr>
           in (save_views_count d instance, Finished instance))
      | Finished instance \<Rightarrow> (d, Finished instance)
      | Failed e \<Rightarrow> (d, Failed e))"

text \<open>
  A schedule names, step by step, the call that performs its next statement. Calls that
  run in parallel threads or processes against one database give some such schedule.
\<close>

fun run_schedule :: "view_call list \<Rightarrow> nat list \<Rightarrow> db \<times> stage list \<Rightarrow> db \<times> stage list" where
  "run_schedule calls [] cfg = cfg"
| "run_schedule calls (i # sched) (d, sts) =
     (if i < length sts \<and> i < length calls
      then (let (d', st') = retrieve_step d (calls ! i) (sts ! i)
            in run_schedule calls sched (d', sts[i := st']))
      else run_schedule calls sched (d, sts))"

text \<open>
  The stored \<open>views_count\<close> of the rows with a given key (one row, as the key is
  primary), and the number of \<open>PhotoView\<close> rows recorded for a photo.
\<close>

definition stored_views_count :: "db \<Rightarrow> nat \<Rightarrow> int list" where
  "stored_views_count d pk = map views_count (filter (\<lambda>p. photo_id p = pk) (photos d))"

definition recorded_views :: "db \<Rightarrow> nat \<Rightarrow> nat" where
  "recorded_views d pk = length (filter (\<lambda>v. view_photo v = pk) (views d))"

text \<open>
  The invariant of overlapping calls. With \<open>c\<close> fixed at the start, the stored count
  of photo \<open>pk\<close> stays at most \<open>c\<close> plus the number of recorded views, and so does the
  count that any call in flight is about to write: a call that has loaded the photo
  holds a count within the bound, and one that has also recorded its view holds a count
  one below it.
\<close>

definition stage_ok :: "nat \<Rightarrow> int \<Rightarrow> stage \<Rightarrow> bool" where
  "stage_ok pk bound st =
     (case st of
        Loaded i \<Rightarrow> photo_id i = pk \<longrightarrow> views_count i \<le> bound
      | Tracked i \<Rightarrow> photo_id i = pk \<longrightarrow> views_count i + 1 \<le> bound
      | _ \<Rightarrow> True)"

definition count_bounded :: "nat \<Rightarrow> int \<Rightarrow> db \<times> stage list \<Rightarrow> bool" where
  "count_bounded pk c cfg =
     (case cfg of (d, sts) \<Rightarrow>
        (\<exists>w. stored_views_count d pk = [w] \<and> w \<le> c + int (recorded_views d pk)) \<and>
        (\<forall>st \<in> set sts. stage_ok pk (c + int (recorded_views d pk)) st))"

section \<open>Sample data\<close>

definition demo_photo :: "nat \<Rightarrow> nat \<Rightarrow> bool \<Rightarrow> photo" where
  "demo_photo i c pub =
     \<lparr>photo_id = i, creator = c, is_published = pub, image = None,
      views_count = 0, average_rating = 0\<rparr>"

definition demo_view :: "nat \<Rightarrow> int \<Rightarrow> photo_view" where
  "demo_view i t =
     \<lparr>view_photo = i, view_user = None, ip_address = None, user_agent = [], viewed_at = t\<rparr>"

definition anonymous :: request where
  "anonymous = \<lparr>req_user = None, creator_param = None, exclude_param = None\<rparr>"

definition logged_in :: "nat \<Rightarrow> role \<Rightarrow> request" where
  "logged_in u ro =
     \<lparr>req_user = Some \<lparr>user_id = u, user_role = ro\<rparr>, creator_param = None,
      exclude_param = None\<rparr>"

definition demo_settings :: settings where
  "demo_settings =
     \<lparr>AZURE_ACCOUNT_NAME = ''acct'', AZURE_CONTAINER = ''media'', AZURE_ACCOUNT_KEY = ''key''\<rparr>"

text \<open>
  Stand-ins for the two library functions, used where a concrete run is evaluated:
  \<open>demo_urlpath\<close> gives the path of a URL of the shape \<open>https://host/path\<close>, and
  \<open>demo_sas\<close> returns a query string laid out as the Azure SDK lays out a blob SAS
  (\<open>se\<close>, \<open>sp\<close>, \<open>sv\<close>, \<open>sr\<close> and a base64 \<open>sig\<close>).
\<close>

definition demo_urlpath :: "string \<Rightarrow> string" where
  "demo_urlpath url = dropWhile (\<lambda>c. c \<noteq> CHR ''/'') (drop 8 url)"

definition demo_sas :: "sas_args \<Rightarrow> string" where
  "demo_sas a = ''se=1970-01-01T01%3A00%3A00Z&sp=r&sv=2021-08-06&sr=b&sig=c2lnbmF0dXJl%3D''"

definition demo_azure_photo :: photo where
  "demo_azure_photo =
     (demo_photo 1 7 True)
       \<lparr>image := Some ''https://acct.blob.core.windows.net/media/photos/a.jpg''\<rparr>"

text \<open>
  The encoding the specification gives for a signed URL:
  \<open><base-resource-url>?expires=<unix-epoch-seconds>&sig=<hex-encoded-MAC>\<close>.
\<close>

definition is_digit :: "char \<Rightarrow> bool" where
  "is_digit c = (c \<in> set ''0123456789'')"

definition is_hex :: "char \<Rightarrow> bool" where
  "is_hex c = (c \<in> set ''0123456789abcdefABCDEF'')"

fun strip_prefix :: "string \<Rightarrow> string \<Rightarrow> string option" where
  "strip_prefix [] s = Some s"
| "strip_prefix (c # t) [] = None"
| "strip_prefix (c # t) (d # s) = (if c = d then strip_prefix t s else None)"

definition spec_signed_url_form :: "string \<Rightarrow> string \<Rightarrow> bool" where
  "spec_signed_url_form base u =
     (case strip_prefix (base @ ''?expires='') u of
        None \<Rightarrow> False
      | Some rest \<Rightarrow>
          takeWhile is_digit rest \<noteq> [] \<and>
          (case strip_prefix ''&sig='' (dropWhile is_digit rest) of
             None \<Rightarrow> False
           | Some sg \<Rightarrow> sg \<noteq> [] \<and> list_all is_hex sg))"

definition demo_user :: "nat \<Rightarrow> user" where
  "demo_user u = \<lparr>user_id = u, user_role = Consumer\<rparr>"

text \<open>One published photo, no ratings, no views.\<close>

definition demo_db_fresh :: db where
  "demo_db_fresh = \<lparr>photos = [demo_photo 1 7 True], ratings = [], views = []\<rparr>"

text \<open>The same photo after user 3 has rated it 4.\<close>

definition demo_db_rated :: db where
  "demo_db_rated =
     \<lparr>photos = [(demo_photo 1 7 True)\<lparr>average_rating := 4\<rparr>],
      ratings = [\<lparr>rating_id = 50, rating_photo = 1, rating_user = 3, score = 4\<rparr>],
      views = []\<rparr>"

text \<open>
  Photo 1 with a single rating of 16 by user 4. It is what is left when user 5 rates
  the photo 1, user 4 rates it 16 through \<open>rate_photo\<close>, and the rating of user 5 is
  deleted. Then the same after user 3 has rated the photo 3.
\<close>

definition demo_db_outlier :: db where
  "demo_db_outlier =
     \<lparr>photos = [(demo_photo 1 7 True)\<lparr>average_rating := 17 / 2\<rparr>],
      ratings = [\<lparr>rating_id = 41, rating_photo = 1, rating_user = 4, score = 16\<rparr>],
      views = []\<rparr>"


text \<open>An anonymous call of the detail endpoint for photo 1.\<close>

definition demo_call :: "int \<Rightarrow> view_call" where
  "demo_call t =
     \<lparr>call_request = anonymous, call_pk = 1, call_ip = None, call_agent = ''curl'',
      call_time = t\<rparr>"

text \<open>Photo 1 after two overlapping calls: two views recorded, a count of 1.\<close>

definition demo_db_lost_update :: db where
  "demo_db_lost_update =
     \<lparr>photos = [(demo_photo 1 7 True)\<lparr>views_count := 1\<rparr>], ratings = [],
      views =
        [\<lparr>view_photo = 1, view_user = None, ip_address = None, user_agent = ''curl'',
          viewed_at = 10\<rparr>,
         \<lparr>view_photo = 1, view_user = None, ip_address = None, user_agent = ''curl'',
          viewed_at = 11\<rparr>]\<rparr>"

text \<open>Two published photos of creator 7; only photo 2 has been viewed.\<close>

definition demo_db_unviewed :: db where
  "demo_db_unviewed =
     \<lparr>photos = [demo_photo 1 7 True, demo_photo 2 7 True], ratings = [],
      views = [demo_view 2 100]\<rparr>"



text \<open>Creator 7 has one published and one unpublished photo.\<close>

definition demo_db_draft :: db where
  "demo_db_draft =
     \<lparr>photos = [demo_photo 1 7 True, demo_photo 2 7 False], ratings = [],
      views = [demo_view 2 100]\<rparr>"


section \<open>Theorems\<close>

subsection \<open>Auxiliary facts about the trending query\<close>

lemma sorted_order_by: "sorted_wrt (\<lambda>a b. snd b \<le> snd a) (order_by_recent_views_desc rows)"
proof -
  have "sorted (map (\<lambda>row. - int (snd row)) (order_by_recent_views_desc rows))"
    unfolding order_by_recent_views_desc_def by (rule sorted_sort_key)
  then show ?thesis
    by (simp add: sorted_map)
qed

lemma set_order_by: "set (order_by_recent_views_desc rows) = set rows"
  by (simp add: order_by_recent_views_desc_def)

lemma length_order_by: "length (order_by_recent_views_desc rows) = length rows"
  by (simp add: order_by_recent_views_desc_def)

text \<open>
  In a list sorted downwards, a prefix that holds some row also holds every row with a
  strictly larger count.
\<close>

lemma take_sorted_desc_closed:
  fixes ys :: "('a \<times> nat) list"
  assumes srt: "sorted_wrt (\<lambda>a b. snd b \<le> snd a) ys"
    and lo: "x \<in> set (take k ys)" and hi: "y \<in> set ys" and lt: "snd x < snd y"
  shows "y \<in> set (take k ys)"
proof -
  from lo obtain i where i: "i < length (take k ys)" "take k ys ! i = x"
    by (auto simp: in_set_conv_nth)
  then have ik: "i < k" "i < length ys" and xi: "ys ! i = x" by auto
  from hi obtain j where j: "j < length ys" "ys ! j = y"
    by (auto simp: in_set_conv_nth)
  have "j < i"
  proof (rule ccontr)
    assume "\<not> j < i"
    moreover have "i \<noteq> j" using xi j lt by auto
    ultimately have "i < j" by simp
    with srt j have "snd (ys ! j) \<le> snd (ys ! i)"
      using sorted_wrt_nth_less [of "\<lambda>a b. snd b \<le> snd a" ys i j] by simp
    with xi j lt show False by simp
  qed
  with ik j have "j < length (take k ys)" "take k ys ! j = y" by auto
  then show ?thesis by (metis nth_mem)
qed

lemma trending_demo_db_unviewed:
  "trending demo_db_unviewed anonymous 200 = [(demo_photo 2 7 True, 1), (demo_photo 1 7 True, 0)]"
  by (simp add: trending_def get_queryset_def anonymous_def demo_db_unviewed_def demo_photo_def
      demo_view_def order_by_recent_views_desc_def recent_views_def timedelta_def)


subsection \<open>Trending\<close>

text \<open>
  C5, as stated, fails: with two published photos of which only one has been viewed,
  the trending list of an anonymous caller contains the unviewed photo, whose count of
  views inside the window is zero.
\<close>

theorem trending_zero_views_counterexample:
  "(demo_photo 1 7 True, 0) \<in> set (trending demo_db_unviewed anonymous 200) \<and>
   recent_views demo_db_unviewed (200 - timedelta 7 0) (demo_photo 1 7 True) = 0"
  by (simp add: trending_demo_db_unviewed)
    (simp add: recent_views_def demo_db_unviewed_def demo_photo_def demo_view_def)

text \<open>
  C5, amended. Every row of the trending list is a photo of the caller's queryset
  together with the exact number of its views at or after \<open>now\<close> minus 7 days. That
  number may be zero; when a row with zero recent views is returned, every photo of the
  queryset that has a recent view is returned as well.
\<close>

theorem trending_rows:
  assumes "row \<in> set (trending d r now)"
  shows "fst row \<in> set (get_queryset d r) \<and>
         snd row = recent_views d (now - timedelta 7 0) (fst row) \<and>
         (snd row = 0 \<longrightarrow>
            (\<forall>q \<in> set (get_queryset d r). 0 < recent_views d (now - timedelta 7 0) q \<longrightarrow>
               (q, recent_views d (now - timedelta 7 0) q) \<in> set (trending d r now)))"
proof -
  let ?w = "now - timedelta 7 0"
  let ?rows = "map (\<lambda>p. (p, recent_views d ?w p)) (get_queryset d r)"
  let ?ys = "order_by_recent_views_desc ?rows"
  have t: "trending d r now = take 20 ?ys" by (simp add: trending_def)
  from assms have "row \<in> set ?ys" unfolding t by (rule in_set_takeD)
  then have mem: "row \<in> set ?rows" by (simp only: set_order_by)
  then have a: "fst row \<in> set (get_queryset d r)"
    and b: "snd row = recent_views d ?w (fst row)"
    by auto
  have c: "(q, recent_views d ?w q) \<in> set (trending d r now)"
    if z: "snd row = 0" and q: "q \<in> set (get_queryset d r)" and pos: "0 < recent_views d ?w q"
    for q
  proof -
    have "(q, recent_views d ?w q) \<in> set ?ys" using q by (simp add: set_order_by)
    moreover have "snd row < snd (q, recent_views d ?w q)" using z pos by simp
    moreover have "row \<in> set (take 20 ?ys)" using assms t by simp
    ultimately have "(q, recent_views d ?w q) \<in> set (take 20 ?ys)"
      by (rule take_sorted_desc_closed [OF sorted_order_by, rotated 1])
    then show ?thesis by (simp only: t)
  qed
  from a b c show ?thesis by blast
qed

theorem trending_rows_witness:
  "(demo_photo 1 7 True, 0) \<in> set (trending demo_db_unviewed anonymous 200) \<and>
   demo_photo 2 7 True \<in> set (get_queryset demo_db_unviewed anonymous) \<and>
   0 < recent_views demo_db_unviewed (200 - timedelta 7 0) (demo_photo 2 7 True) \<and>
   (demo_photo 2 7 True, recent_views demo_db_unviewed (200 - timedelta 7 0) (demo_photo 2 7 True))
      \<in> set (trending demo_db_unviewed anonymous 200)"
proof -
  have m: "(demo_photo 1 7 True, 0) \<in> set (trending demo_db_unviewed anonymous 200)"
    by (simp add: trending_demo_db_unviewed)
  have q: "demo_photo 2 7 True \<in> set (get_queryset demo_db_unviewed anonymous)"
    by (simp add: get_queryset_def anonymous_def demo_db_unviewed_def demo_photo_def)
  have pos: "0 < recent_views demo_db_unviewed (200 - timedelta 7 0) (demo_photo 2 7 True)"
    by (simp add: recent_views_def demo_db_unviewed_def demo_photo_def demo_view_def
        timedelta_def)
  from trending_rows [OF m] q pos m show ?thesis by auto
qed








lemma trending_length_sorted:
  "length (trending d r now) \<le> 20 \<and>
   sorted_wrt (\<lambda>a b. snd b \<le> snd a) (trending d r now)"
proof
  show "length (trending d r now) \<le> 20"
    by (simp add: trending_def)
  have "sorted_wrt (\<lambda>a b. snd b \<le> snd a) (take 20 (order_by_recent_views_desc rows))"
    for rows :: "(photo \<times> nat) list"
    using sorted_order_by [of rows] by (rule sorted_wrt_take)
  then show "sorted_wrt (\<lambda>a b. snd b \<le> snd a) (trending d r now)"
    by (simp add: trending_def)
qed



subsection \<open>Image URLs\<close>


text \<open>
  C9. A photo without an image serialises its image field as null, and a photo whose
  image URL does not contain \<open>blob.core.windows.net\<close> serialises it as the stored URL,
  unchanged, in the list serializer and in the detail serializer alike. No signature or
  expiry is appended: the SAS function is not consulted at all.
\<close>

theorem get_image_plain_url:
  "(image obj = None \<longrightarrow>
      list_get_image urlpath sas cfg now obj = None \<and>
      detail_get_image urlpath sas cfg now obj = None) \<and>
   (image obj = Some url \<and> \<not> contains url ''blob.core.windows.net'' \<longrightarrow>
      list_get_image urlpath sas cfg now obj = Some url \<and>
      detail_get_image urlpath sas cfg now obj = Some url)"
  by (simp add: list_get_image_def detail_get_image_def get_image_def)

theorem get_image_plain_url_witness:
  "list_get_image id (\<lambda>a. ''sig'') demo_settings 0 (demo_photo 1 7 True) = None \<and>
   detail_get_image id (\<lambda>a. ''sig'') demo_settings 0 (demo_photo 1 7 True) = None \<and>
   list_get_image id (\<lambda>a. ''sig'') demo_settings 0
     ((demo_photo 1 7 True)\<lparr>image := Some ''/media/photos/a.jpg''\<rparr>)
     = Some ''/media/photos/a.jpg'' \<and>
   detail_get_image id (\<lambda>a. ''sig'') demo_settings 0
     ((demo_photo 1 7 True)\<lparr>image := Some ''/media/photos/a.jpg''\<rparr>)
     = Some ''/media/photos/a.jpg''"
proof -
  have none: "image (demo_photo 1 7 True) = None"
    by (simp add: demo_photo_def)
  have some: "image ((demo_photo 1 7 True)\<lparr>image := Some ''/media/photos/a.jpg''\<rparr>)
      = Some ''/media/photos/a.jpg'' \<and>
    \<not> contains ''/media/photos/a.jpg'' ''blob.core.windows.net''"
    by simp
  from none some
    get_image_plain_url [where obj = "demo_photo 1 7 True" and urlpath = id
      and sas = "\<lambda>a. ''sig''" and cfg = demo_settings and now = 0]
    get_image_plain_url [where obj = "(demo_photo 1 7 True)\<lparr>image := Some ''/media/photos/a.jpg''\<rparr>"
      and url = "''/media/photos/a.jpg''" and urlpath = id
      and sas = "\<lambda>a. ''sig''" and cfg = demo_settings and now = 0]
  show ?thesis by blast
qed

text \<open>
  C7, as stated, fails. The code appends to the stored URL whatever
  \<open>generate_blob_sas\<close> returns; it writes no \<open>expires=\<close> parameter and hex-encodes
  nothing. With a SAS laid out as the Azure SDK lays it out, the URL returned for a
  blob-hosted image is not of the form \<open>base?expires=<seconds>&sig=<hex>\<close>.
\<close>

theorem get_image_form_counterexample:
  "detail_get_image demo_urlpath demo_sas demo_settings 0 demo_azure_photo =
     Some (''https://acct.blob.core.windows.net/media/photos/a.jpg'' @ ''?'' @
           ''se=1970-01-01T01%3A00%3A00Z&sp=r&sv=2021-08-06&sr=b&sig=c2lnbmF0dXJl%3D'') \<and>
   \<not> spec_signed_url_form ''https://acct.blob.core.windows.net/media/photos/a.jpg''
       (the (detail_get_image demo_urlpath demo_sas demo_settings 0 demo_azure_photo))"
  by (simp add: detail_get_image_def get_image_def demo_azure_photo_def demo_sas_def
      spec_signed_url_form_def)

text \<open>
  C7, amended. For a photo whose image URL contains \<open>blob.core.windows.net\<close>, both
  serializers return the stored URL, a question mark, and the token that
  \<open>generate_blob_sas\<close> returns for the configured account, container and key, read
  permission, the blob name cut from the URL's path after its first segment, and an
  expiry of one hour (3600000000 microseconds) after the time of the call.
\<close>

theorem get_image_azure_url:
  assumes "image obj = Some url" and "contains url ''blob.core.windows.net''"
  shows "list_get_image urlpath sas cfg now obj =
           Some (url @ ''?'' @ sas
             \<lparr>account_name = AZURE_ACCOUNT_NAME cfg,
              container_name = AZURE_CONTAINER cfg,
              blob_name = blob_name_of (lstrip_slash (urlpath url)),
              account_key = AZURE_ACCOUNT_KEY cfg,
              permission_read = True,
              expiry = now + 3600000000\<rparr>) \<and>
         detail_get_image urlpath sas cfg now obj = list_get_image urlpath sas cfg now obj"
  using assms
  by (simp add: list_get_image_def detail_get_image_def get_image_def timedelta_def)

theorem get_image_azure_url_witness:
  "list_get_image demo_urlpath demo_sas demo_settings 5 demo_azure_photo =
     Some (''https://acct.blob.core.windows.net/media/photos/a.jpg'' @ ''?'' @ demo_sas
           \<lparr>account_name = ''acct'', container_name = ''media'', blob_name = ''photos/a.jpg'',
            account_key = ''key'', permission_read = True, expiry = 3600000005\<rparr>)"
proof -
  have a: "image demo_azure_photo = Some ''https://acct.blob.core.windows.net/media/photos/a.jpg''"
    by (simp add: demo_azure_photo_def)
  have b: "contains ''https://acct.blob.core.windows.net/media/photos/a.jpg''
      ''blob.core.windows.net''"
    by simp
  have c: "blob_name_of (lstrip_slash
      (demo_urlpath ''https://acct.blob.core.windows.net/media/photos/a.jpg'')) = ''photos/a.jpg''"
    by (simp add: blob_name_of_def lstrip_slash_def demo_urlpath_def)
  from get_image_azure_url [OF a b, of demo_urlpath demo_sas demo_settings 5] c
  show ?thesis by (simp add: demo_settings_def)
qed

subsection \<open>Who sees what in the trending list\<close>

lemma get_queryset_own:
  assumes "creator_param r = None" "req_user r = Some u" "user_role u = Creator"
    "p \<in> set (photos d)" "creator p = user_id u" "exclude_param r \<noteq> Some (photo_id p)"
  shows "p \<in> set (get_queryset d r)"
  using assms by (auto simp: get_queryset_def Let_def split: option.splits)

lemma get_queryset_published:
  assumes "req_user r = None \<or> (\<exists>u. req_user r = Some u \<and> user_role u = Consumer)"
    "p \<in> set (get_queryset d r)"
  shows "is_published p"
  using assms by (auto simp: get_queryset_def Let_def split: option.splits if_splits)

lemma trending_all_when_short:
  assumes "length (get_queryset d r) \<le> 20"
  shows "fst ` set (trending d r now) = set (get_queryset d r)"
proof -
  have "trending d r now = order_by_recent_views_desc
      (map (\<lambda>p. (p, recent_views d (now - timedelta 7 0) p)) (get_queryset d r))"
    using assms by (simp add: trending_def length_order_by)
  then show ?thesis
    by (simp add: set_order_by image_image)
qed

lemma trending_subset_queryset: "fst ` set (trending d r now) \<subseteq> set (get_queryset d r)"
proof -
  have "set (trending d r now) \<subseteq> set (order_by_recent_views_desc
      (map (\<lambda>p. (p, recent_views d (now - timedelta 7 0) p)) (get_queryset d r)))"
    unfolding trending_def Let_def by (rule set_take_subset)
  then show ?thesis
    by (auto simp: set_order_by)
qed

lemma trending_draft_creator:
  "trending demo_db_draft (logged_in 7 Creator) 200 =
     [(demo_photo 2 7 False, 1), (demo_photo 1 7 True, 0)]"
  by (simp add: trending_def get_queryset_def logged_in_def demo_db_draft_def demo_photo_def
      demo_view_def order_by_recent_views_desc_def recent_views_def timedelta_def)

lemma trending_draft_anonymous:
  "trending demo_db_draft anonymous 200 = [(demo_photo 1 7 True, 0)]"
  by (simp add: trending_def get_queryset_def anonymous_def demo_db_draft_def demo_photo_def
      demo_view_def order_by_recent_views_desc_def recent_views_def timedelta_def)

lemma trending_draft_consumer:
  "trending demo_db_draft (logged_in 8 Consumer) 200 = [(demo_photo 1 7 True, 0)]"
  by (simp add: trending_def get_queryset_def logged_in_def demo_db_draft_def demo_photo_def
      demo_view_def order_by_recent_views_desc_def recent_views_def timedelta_def)

text \<open>
  C10. The trending list depends on who asks. For a request without a \<open>creator\<close>
  parameter made by an authenticated creator, every photo of that creator that the
  \<open>exclude\<close> parameter does not name is among the ranked candidates, published or not
  (and is returned when there are at most 20 candidates). For an anonymous caller or a
  consumer, every returned photo is published. On one and the same database the creator's
  list differs from the anonymous caller's and from a consumer's.
\<close>

theorem trending_depends_on_caller:
  "(creator_param r = None \<and> req_user r = Some u \<and> user_role u = Creator \<and>
    p \<in> set (photos d) \<and> creator p = user_id u \<and> \<not> is_published p \<and>
    exclude_param r \<noteq> Some (photo_id p) \<longrightarrow>
      p \<in> set (get_queryset d r) \<and>
      (length (get_queryset d r) \<le> 20 \<longrightarrow> p \<in> fst ` set (trending d r now))) \<and>
   ((req_user r' = None \<or> (\<exists>c. req_user r' = Some c \<and> user_role c = Consumer)) \<longrightarrow>
      (\<forall>row \<in> set (trending d r' now). is_published (fst row))) \<and>
   trending demo_db_draft (logged_in 7 Creator) 200 \<noteq> trending demo_db_draft anonymous 200 \<and>
   trending demo_db_draft (logged_in 7 Creator) 200 \<noteq>
     trending demo_db_draft (logged_in 8 Consumer) 200"
proof (intro conjI impI ballI)
  assume a: "creator_param r = None \<and> req_user r = Some u \<and> user_role u = Creator \<and>
    p \<in> set (photos d) \<and> creator p = user_id u \<and> \<not> is_published p \<and>
    exclude_param r \<noteq> Some (photo_id p)"
  then show own: "p \<in> set (get_queryset d r)"
    by (simp add: get_queryset_own)
  assume "length (get_queryset d r) \<le> 20"
  with own show "p \<in> fst ` set (trending d r now)"
    by (simp add: trending_all_when_short)
next
  fix row
  assume "req_user r' = None \<or> (\<exists>c. req_user r' = Some c \<and> user_role c = Consumer)"
    and "row \<in> set (trending d r' now)"
  moreover from this have "fst row \<in> set (get_queryset d r')"
    using trending_subset_queryset [of d r' now] by blast
  ultimately show "is_published (fst row)"
    by (blast intro: get_queryset_published)
next
  show "trending demo_db_draft (logged_in 7 Creator) 200 \<noteq> trending demo_db_draft anonymous 200"
    by (simp add: trending_draft_creator trending_draft_anonymous)
next
  show "trending demo_db_draft (logged_in 7 Creator) 200 \<noteq>
      trending demo_db_draft (logged_in 8 Consumer) 200"
    by (simp add: trending_draft_creator trending_draft_consumer)
qed

theorem trending_depends_on_caller_witness:
  "demo_photo 2 7 False \<in> fst ` set (trending demo_db_draft (logged_in 7 Creator) 200) \<and>
   \<not> is_published (demo_photo 2 7 False) \<and>
   (demo_photo 1 7 True, 0) \<in> set (trending demo_db_draft anonymous 200) \<and>
   is_published (demo_photo 1 7 True)"
proof -
  let ?r = "logged_in 7 Creator" and ?u = "\<lparr>user_id = 7, user_role = Creator\<rparr>"
    and ?p = "demo_photo 2 7 False"
  have h1: "creator_param ?r = None \<and> req_user ?r = Some ?u \<and> user_role ?u = Creator \<and>
    ?p \<in> set (photos demo_db_draft) \<and> creator ?p = user_id ?u \<and> \<not> is_published ?p \<and>
    exclude_param ?r \<noteq> Some (photo_id ?p)"
    by (simp add: logged_in_def demo_db_draft_def demo_photo_def)
  have h2: "length (get_queryset demo_db_draft ?r) \<le> 20"
    by (simp add: get_queryset_def logged_in_def demo_db_draft_def demo_photo_def)
  have h3: "req_user anonymous = None"
    by (simp add: anonymous_def)
  have h4: "(demo_photo 1 7 True, 0) \<in> set (trending demo_db_draft anonymous 200)"
    by (simp add: trending_draft_anonymous)
  from trending_depends_on_caller [of ?r ?u ?p demo_db_draft 200 anonymous] h1 h2 h3 h4
  show ?thesis by fastforce
qed

subsection \<open>Ratings\<close>

lemma update_average_rating_frame:
  assumes "update_average_rating d pid = Inr d'"
  shows "ratings d' = ratings d" "views d' = views d"
    "map photo_id (photos d') = map photo_id (photos d)"
  using assms
  by (auto simp: update_average_rating_def Let_def split: sum.splits)

text \<open>Rounding stays between the grid points that enclose its argument.\<close>

lemma round_half_even_bounds:
  assumes "of_int a \<le> x" "x \<le> of_int b"
  shows "a \<le> round_half_even x \<and> round_half_even x \<le> b"
proof -
  have lo: "a \<le> \<lfloor>x\<rfloor>" using assms(1) by (simp add: le_floor_iff)
  have hi: "\<lfloor>x\<rfloor> \<le> b" using assms(2) by (simp add: floor_le_iff)
  have up: "\<lfloor>x\<rfloor> + 1 \<le> b" if "0 < x - of_int \<lfloor>x\<rfloor>"
  proof -
    from that have "of_int \<lfloor>x\<rfloor> < x" by simp
    with assms(2) have "of_int \<lfloor>x\<rfloor> < (of_int b :: rat)" by simp
    then show ?thesis by simp
  qed
  show ?thesis
    using lo hi up by (auto simp: round_half_even_def Let_def)
qed

lemma round_half_even_of_int [simp]: "round_half_even (of_int k) = k"
  using round_half_even_bounds [of k "of_int k" k] by simp

lemma round_half_even_0 [simp]: "round_half_even 0 = 0"
  using round_half_even_of_int [of 0] by simp









lemma to_decimal_field_0: "to_decimal_field 0 = Inr 0"
  by (simp add: to_decimal_field_def round_significant3_def)



text \<open>Values that the sample runs store.\<close>

lemma average_for_samples:
  "average_for 1 (Suc 0) = Inr 1"
  "average_for 3 (Suc 0) = Inr 3"
  "average_for 4 (Suc 0) = Inr 4"
  "average_for 5 (Suc 0) = Inr 5"
  "average_for 6 (Suc 0) = Inr 6"
  "average_for 17 (Suc (Suc 0)) = Inr (17 / 2)"
  "average_for 19 (Suc (Suc 0)) = Inr (19 / 2)"
  "average_for 21 (Suc (Suc 0)) = Inl InvalidOperation"
  by code_simp+

text \<open>The recomputation, in terms of the photo's score sum and rating count.\<close>

lemma update_average_rating_eq:
  "update_average_rating d pid =
     (case average_for (rating_sum d pid) (rating_count d pid) of
        Inl e \<Rightarrow> Inl e
      | Inr v \<Rightarrow>
          Inr (d\<lparr>photos :=
                   map (\<lambda>p. if photo_id p = pid then p\<lparr>average_rating := v\<rparr> else p)
                     (photos d)\<rparr>))"
  by (simp add: update_average_rating_def average_for_def rating_sum_def rating_count_def
      Avg_score_def Let_def)

lemma average_after_map:
  assumes "p \<in> set (map (\<lambda>q. if photo_id q = pid then q\<lparr>average_rating := v\<rparr> else q) xs)"
    and "photo_id p = pid"
  shows "average_rating p = v"
proof -
  from assms(1) obtain q where
    q: "p = (if photo_id q = pid then q\<lparr>average_rating := v\<rparr> else q)"
    by (auto simp only: set_map image_iff)
  show ?thesis
  proof (cases "photo_id q = pid")
    case True
    with q show ?thesis by simp
  next
    case False
    with q assms(2) show ?thesis by simp
  qed
qed

text \<open>
  The save path keeps the stored average in step with the rating set: after a
  successful recomputation every row of the photo holds the value computed from the
  scores that are then attached to it.
\<close>

lemma update_average_rating_recomputes:
  assumes upd: "update_average_rating d pid = Inr d'"
    and p: "p \<in> set (photos d')" "photo_id p = pid"
  shows "average_for (rating_sum d' pid) (rating_count d' pid) = Inr (average_rating p)"
proof (cases "average_for (rating_sum d pid) (rating_count d pid)")
  case (Inl e)
  with upd show ?thesis by (simp add: update_average_rating_eq)
next
  case (Inr v)
  with upd have d': "d' = d\<lparr>photos :=
      map (\<lambda>q. if photo_id q = pid then q\<lparr>average_rating := v\<rparr> else q) (photos d)\<rparr>"
    by (simp add: update_average_rating_eq)
  then have "p \<in> set (map (\<lambda>q. if photo_id q = pid then q\<lparr>average_rating := v\<rparr> else q)
      (photos d))"
    using p(1) by simp
  then have "average_rating p = v" using p(2) by (rule average_after_map)
  moreover have "rating_sum d' pid = rating_sum d pid" "rating_count d' pid = rating_count d pid"
    by (simp_all add: d' rating_sum_def rating_count_def)
  ultimately show ?thesis using Inr by simp
qed
















lemma demo_db_outlier_reachable:
  "rate_photo demo_db_fresh (Some (demo_user 5)) (Some 1) (Some 1) 40 =
     (Inr (\<lparr>rating_id = 40, rating_photo = 1, rating_user = 5, score = 1\<rparr>, True),
      \<lparr>photos = [(demo_photo 1 7 True)\<lparr>average_rating := 1\<rparr>],
       ratings = [\<lparr>rating_id = 40, rating_photo = 1, rating_user = 5, score = 1\<rparr>],
       views = []\<rparr>) \<and>
   rate_photo
      \<lparr>photos = [(demo_photo 1 7 True)\<lparr>average_rating := 1\<rparr>],
       ratings = [\<lparr>rating_id = 40, rating_photo = 1, rating_user = 5, score = 1\<rparr>],
       views = []\<rparr>
      (Some (demo_user 4)) (Some 1) (Some 16) 41 =
     (Inr (\<lparr>rating_id = 41, rating_photo = 1, rating_user = 4, score = 16\<rparr>, True),
      \<lparr>photos = [(demo_photo 1 7 True)\<lparr>average_rating := 17 / 2\<rparr>],
       ratings = [\<lparr>rating_id = 40, rating_photo = 1, rating_user = 5, score = 1\<rparr>,
                  \<lparr>rating_id = 41, rating_photo = 1, rating_user = 4, score = 16\<rparr>],
       views = []\<rparr>) \<and>
   RatingViewSet_destroy
      \<lparr>photos = [(demo_photo 1 7 True)\<lparr>average_rating := 17 / 2\<rparr>],
       ratings = [\<lparr>rating_id = 40, rating_photo = 1, rating_user = 5, score = 1\<rparr>,
                  \<lparr>rating_id = 41, rating_photo = 1, rating_user = 4, score = 16\<rparr>],
       views = []\<rparr>
      (Some (demo_user 5)) 40 =
     (Inr (), demo_db_outlier)"
  by (simp add: rate_photo_def RatingViewSet_destroy_def demo_db_fresh_def demo_db_outlier_def
      demo_user_def demo_photo_def update_or_create_def Rating_save_def update_average_rating_eq
      rating_sum_def rating_count_def average_for_samples Let_def)




text \<open>
  The serializer path refuses every score outside 1 to 5 and leaves the database as it
  was.
\<close>

lemma RatingViewSet_create_rejects:
  assumes "s < 1 \<or> 5 < s"
  shows "\<exists>e. RatingViewSet_create d usr photo_field (Some s) new_id = (Inl e, d)"
proof (cases usr)
  case None
  then show ?thesis by (simp add: RatingViewSet_create_def)
next
  case (Some u)
  show ?thesis
  proof (cases photo_field)
    case None
    with Some show ?thesis by (simp add: RatingViewSet_create_def)
  next
    case (Some pid)
    with \<open>usr = Some u\<close> assms show ?thesis
      by (cases "find (\<lambda>p. photo_id p = pid) (photos d)")
        (simp_all add: RatingViewSet_create_def validate_score_def)
  qed
qed

text \<open>
  C3 on the \<open>rate_photo\<close> path: a score of 6 is not rejected. The call answers 201,
  stores the rating and sets the photo's average to 6, whereas the same submission to
  the serializer path (\<open>POST /api/ratings/\<close>) is refused with a validation error and
  leaves the database as it was.
\<close>

theorem rate_photo_accepts_score_out_of_range:
  "rate_photo demo_db_fresh (Some (demo_user 3)) (Some 1) (Some 6) 50 =
     (Inr (\<lparr>rating_id = 50, rating_photo = 1, rating_user = 3, score = 6\<rparr>, True),
      \<lparr>photos = [(demo_photo 1 7 True)\<lparr>average_rating := 6\<rparr>],
       ratings = [\<lparr>rating_id = 50, rating_photo = 1, rating_user = 3, score = 6\<rparr>],
       views = []\<rparr>) \<and>
   RatingViewSet_create demo_db_fresh (Some (demo_user 3)) (Some 1) (Some 6) 50 =
     (Inl ValidationError, demo_db_fresh)"
  by (simp add: rate_photo_def RatingViewSet_create_def validate_score_def demo_db_fresh_def
      demo_user_def demo_photo_def update_or_create_def Rating_save_def update_average_rating_eq
      rating_sum_def rating_count_def average_for_samples Let_def)

text \<open>
  C1 on the delete path: after a rating of 4 is stored the photo's average is 4; deleting
  that rating leaves the photo without ratings while its stored average is still 4, not
  the 0 that the rating set now gives.
\<close>

theorem destroy_leaves_stale_average:
  "rate_photo demo_db_fresh (Some (demo_user 3)) (Some 1) (Some 4) 50 =
     (Inr (\<lparr>rating_id = 50, rating_photo = 1, rating_user = 3, score = 4\<rparr>, True),
      demo_db_rated) \<and>
   RatingViewSet_destroy demo_db_rated (Some (demo_user 3)) 50 =
     (Inr (), demo_db_rated\<lparr>ratings := []\<rparr>) \<and>
   map average_rating (photos (demo_db_rated\<lparr>ratings := []\<rparr>)) = [4] \<and>
   rating_count (demo_db_rated\<lparr>ratings := []\<rparr>) 1 = 0 \<and>
   spec_average (demo_db_rated\<lparr>ratings := []\<rparr>) 1 = 0"
  by (simp add: rate_photo_def RatingViewSet_destroy_def demo_db_fresh_def demo_db_rated_def
      demo_user_def demo_photo_def update_or_create_def Rating_save_def update_average_rating_eq
      rating_sum_def rating_count_def average_for_samples Let_def spec_average_def)

subsection \<open>Recording views\<close>

lemma get_queryset_subset: "set (get_queryset d r) \<subseteq> set (photos d)"
  by (auto simp: get_queryset_def Let_def split: option.splits)

lemma get_queryset_map:
  assumes "\<And>p. photo_id (f p) = photo_id p" "\<And>p. creator (f p) = creator p"
    "\<And>p. is_published (f p) = is_published p"
  shows "get_queryset (d\<lparr>photos := map f (photos d)\<rparr>) r = map f (get_queryset d r)"
  by (simp add: get_queryset_def Let_def filter_map comp_def assms split: option.splits)

lemma get_object_Some:
  assumes "get_object d r pk = Some instance"
  shows "instance \<in> set (photos d)" "photo_id instance = pk"
proof -
  from assms have "instance \<in> set (get_queryset d r)" "photo_id instance = pk"
    by (auto simp: get_object_def find_Some_iff)
  then show "instance \<in> set (photos d)" "photo_id instance = pk"
    using get_queryset_subset by auto
qed

lemma stored_views_count_member:
  assumes "p \<in> set (photos d)" "photo_id p = pk" "stored_views_count d pk = [v]"
  shows "views_count p = v"
proof -
  from assms(1,2) have "views_count p \<in> set (stored_views_count d pk)"
    by (auto simp: stored_views_count_def)
  with assms(3) show ?thesis by simp
qed

lemma views_count_after_update:
  "map views_count (filter (\<lambda>p. photo_id p = pk)
      (map (\<lambda>p. if photo_id p = k then p\<lparr>views_count := w\<rparr> else p) xs)) =
   (if k = pk then map (\<lambda>_. w) (filter (\<lambda>p. photo_id p = pk) xs)
    else map views_count (filter (\<lambda>p. photo_id p = pk) xs))"
  by (induction xs) auto

lemma stored_views_count_save:
  "stored_views_count (save_views_count d i) pk =
     (if photo_id i = pk then map (\<lambda>_. views_count i) (stored_views_count d pk)
      else stored_views_count d pk)"
  by (simp add: stored_views_count_def save_views_count_def views_count_after_update comp_def)

lemma stored_views_count_create [simp]:
  "stored_views_count (PhotoView_create d i c) pk = stored_views_count d pk"
  by (simp add: stored_views_count_def PhotoView_create_def)

lemma recorded_views_create:
  "recorded_views (PhotoView_create d i c) pk =
     recorded_views d pk + (if photo_id i = pk then 1 else 0)"
  by (simp add: recorded_views_def PhotoView_create_def)

lemma recorded_views_save [simp]:
  "recorded_views (save_views_count d i) pk = recorded_views d pk"
  by (simp add: recorded_views_def save_views_count_def)

lemma get_object_create [simp]:
  "get_object (PhotoView_create d i c) r pk = get_object d r pk"
  by (simp add: get_object_def get_queryset_def PhotoView_create_def)

lemma find_map_None:
  assumes "\<And>p. Q (f p) = Q p"
  shows "(find Q (map f xs) = None) = (find Q xs = None)"
  by (induction xs) (simp_all add: assms)

lemma get_object_save:
  "(get_object (save_views_count d i) r pk = None) = (get_object d r pk = None)"
proof -
  let ?f = "\<lambda>p. if photo_id p = photo_id i then p\<lparr>views_count := views_count i\<rparr> else p"
  have "get_queryset (save_views_count d i) r = map ?f (get_queryset d r)"
    unfolding save_views_count_def by (rule get_queryset_map) auto
  moreover have "(find (\<lambda>p. photo_id p = pk) (map ?f xs) = None) =
      (find (\<lambda>p. photo_id p = pk) xs = None)" for xs :: "photo list"
    by (rule find_map_None) simp
  ultimately show ?thesis
    by (simp only: get_object_def)
qed

lemma retrieve_visible:
  assumes "stored_views_count d pk = [v]" "call_pk c = pk"
    "get_object d (call_request c) pk \<noteq> None"
  shows "stored_views_count (snd (retrieve d c)) pk = [v + 1]"
    and "recorded_views (snd (retrieve d c)) pk = recorded_views d pk + 1"
    and "(get_object (snd (retrieve d c)) r pk = None) = (get_object d r pk = None)"
proof -
  from assms(3) obtain i where i: "get_object d (call_request c) pk = Some i" by auto
  note io = get_object_Some [OF i]
  have v: "views_count i = v"
    using io assms(1) by (rule stored_views_count_member)
  let ?i = "i\<lparr>views_count := views_count i + 1\<rparr>"
  have r: "snd (retrieve d c) = save_views_count (PhotoView_create d i c) ?i"
    using i assms(2) by (simp add: retrieve_def Let_def)
  show "stored_views_count (snd (retrieve d c)) pk = [v + 1]"
    unfolding r using io(2) v assms(1) by (simp add: stored_views_count_save)
  show "recorded_views (snd (retrieve d c)) pk = recorded_views d pk + 1"
    unfolding r using io(2) by (simp add: recorded_views_create)
  show "(get_object (snd (retrieve d c)) r pk = None) = (get_object d r pk = None)"
    unfolding r by (simp add: get_object_save)
qed

lemma retrieve_all_exact:
  assumes "stored_views_count d pk = [v]"
    and "\<forall>c \<in> set cs. call_pk c = pk \<and> get_object d (call_request c) pk \<noteq> None"
  shows "stored_views_count (retrieve_all d cs) pk = [v + int (length cs)] \<and>
         recorded_views (retrieve_all d cs) pk = recorded_views d pk + length cs"
  using assms
proof (induction cs arbitrary: d v)
  case Nil
  then show ?case by simp
next
  case (Cons c cs)
  then have c: "call_pk c = pk" "get_object d (call_request c) pk \<noteq> None" by simp_all
  note step = retrieve_visible [OF Cons.prems(1) c]
  have "\<forall>c' \<in> set cs. call_pk c' = pk \<and>
      get_object (snd (retrieve d c)) (call_request c') pk \<noteq> None"
    using Cons.prems(2) by (simp add: step(3))
  from Cons.IH [OF step(1) this] show ?case
    by (simp add: step(2))
qed

lemma stage_ok_mono: "stage_ok pk b st \<Longrightarrow> b \<le> b' \<Longrightarrow> stage_ok pk b' st"
  by (auto simp: stage_ok_def split: stage.splits)

lemma count_bounded_step:
  assumes inv: "count_bounded pk c (d, sts)" and i: "i < length sts"
    and step: "retrieve_step d call (sts ! i) = (d', st')"
  shows "count_bounded pk c (d', sts[i := st'])"
proof -
  let ?b = "c + int (recorded_views d pk)"
  from inv obtain w where w: "stored_views_count d pk = [w]" "w \<le> ?b"
    and all: "\<forall>st \<in> set sts. stage_ok pk ?b st"
    by (auto simp: count_bounded_def)
  from i all have cur: "stage_ok pk ?b (sts ! i)" by simp
  have others: "stage_ok pk b' st" if "st \<in> set (sts[i := st'])" "stage_ok pk b' st'" "?b \<le> b'"
    for st b'
  proof -
    from that(1) have "st = st' \<or> st \<in> set sts"
      using set_update_subset_insert [of sts i st'] by auto
    with that(2,3) all show ?thesis by (auto intro: stage_ok_mono)
  qed
  show ?thesis
  proof (cases "sts ! i")
    case Pending
    show ?thesis
    proof (cases "get_object d (call_request call) (call_pk call)")
      case None
      with step Pending have "d' = d" "st' = Failed HTTP_404_NOT_FOUND"
        by (simp_all add: retrieve_step_def)
      with w others show ?thesis
        by (auto simp: count_bounded_def stage_ok_def)
    next
      case (Some inst)
      with step Pending have eq: "d' = d" "st' = Loaded inst"
        by (simp_all add: retrieve_step_def)
      have "stage_ok pk ?b (Loaded inst)"
        using get_object_Some [OF Some] stored_views_count_member [of inst d pk w] w
        by (auto simp: stage_ok_def)
      with eq w others show ?thesis
        by (auto simp: count_bounded_def)
    qed
  next
    case (Loaded inst)
    with step have eq: "d' = PhotoView_create d inst call" "st' = Tracked inst"
      by (simp_all add: retrieve_step_def)
    let ?b' = "c + int (recorded_views d' pk)"
    have le: "?b \<le> ?b'" by (simp add: eq recorded_views_create)
    have "stage_ok pk ?b' (Tracked inst)"
      using cur Loaded by (auto simp: stage_ok_def eq recorded_views_create)
    with others le have "\<forall>st \<in> set (sts[i := st']). stage_ok pk ?b' st"
      using eq(2) by blast
    moreover have "stored_views_count d' pk = [w]" "w \<le> ?b'"
      using w le by (simp_all add: eq)
    ultimately show ?thesis
      by (auto simp: count_bounded_def)
  next
    case (Tracked inst)
    let ?i = "inst\<lparr>views_count := views_count inst + 1\<rparr>"
    from step Tracked have eq: "d' = save_views_count d ?i" "st' = Finished ?i"
      by (simp_all add: retrieve_step_def Let_def)
    have b: "c + int (recorded_views d' pk) = ?b" by (simp add: eq)
    have "\<exists>w'. stored_views_count d' pk = [w'] \<and> w' \<le> ?b"
      using w cur Tracked by (auto simp: eq stored_views_count_save stage_ok_def)
    moreover have "\<forall>st \<in> set (sts[i := st']). stage_ok pk ?b st"
      using others [of _ ?b] eq(2) by (auto simp: stage_ok_def)
    ultimately show ?thesis
      unfolding count_bounded_def using b by simp
  next
    case (Finished inst)
    with step have "d' = d" "st' = sts ! i"
      by (simp_all add: retrieve_step_def)
    with inv show ?thesis by simp
  next
    case (Failed e)
    with step have "d' = d" "st' = sts ! i"
      by (simp_all add: retrieve_step_def)
    with inv show ?thesis by simp
  qed
qed

lemma count_bounded_run:
  assumes "count_bounded pk c (d, sts)"
  shows "count_bounded pk c (run_schedule calls sched (d, sts))"
  using assms
proof (induction sched arbitrary: d sts)
  case Nil
  then show ?case by simp
next
  case (Cons i sched)
  show ?case
  proof (cases "i < length sts \<and> i < length calls")
    case True
    obtain d' st' where st: "retrieve_step d (calls ! i) (sts ! i) = (d', st')"
      by (cases "retrieve_step d (calls ! i) (sts ! i)")
    from True have "i < length sts" by simp
    from count_bounded_step [OF Cons.prems this st]
    have "count_bounded pk c (run_schedule calls sched (d', sts[i := st']))"
      by (rule Cons.IH)
    with True st show ?thesis by simp
  next
    case False
    then have "run_schedule calls (i # sched) (d, sts) = run_schedule calls sched (d, sts)"
      by auto
    with Cons show ?thesis by simp
  qed
qed

lemma run_schedule_bound:
  assumes "stored_views_count d pk = [v]"
    and "run_schedule calls sched (d, replicate (length calls) Pending) = (d', sts')"
  shows "\<exists>v'. stored_views_count d' pk = [v'] \<and>
           v' - v \<le> int (recorded_views d' pk) - int (recorded_views d pk)"
proof -
  let ?c = "v - int (recorded_views d pk)"
  have "count_bounded pk ?c (d, replicate (length calls) Pending)"
    using assms(1) by (simp add: count_bounded_def stage_ok_def)
  from count_bounded_run [OF this, of calls sched] assms(2)
  show ?thesis
    by (auto simp: count_bounded_def)
qed

text \<open>The uninterrupted \<open>retrieve\<close> is the three steps of one call in a row.\<close>

lemma retrieve_as_steps:
  "run_schedule [c] [0, 0, 0] (d, [Pending]) =
     (snd (retrieve d c),
      [case fst (retrieve d c) of Inr instance \<Rightarrow> Finished instance | Inl e \<Rightarrow> Failed e])"
  by (cases "get_object d (call_request c) (call_pk c)")
    (simp_all add: retrieve_def retrieve_step_def Let_def)

text \<open>
  C2, as stated, fails. Two calls for photo 1 overlap: both load the photo while its
  count is 0, then each records its view and writes the count 1. Both calls finish, two
  views are recorded, and the count has grown by 1, not by 2.
\<close>

theorem lost_update_counterexample:
  "run_schedule [demo_call 10, demo_call 11] [0, 1, 0, 0, 1, 1]
      (demo_db_fresh, [Pending, Pending]) =
     (demo_db_lost_update,
      [Finished ((demo_photo 1 7 True)\<lparr>views_count := 1\<rparr>),
       Finished ((demo_photo 1 7 True)\<lparr>views_count := 1\<rparr>)]) \<and>
   stored_views_count demo_db_fresh 1 = [0] \<and>
   stored_views_count demo_db_lost_update 1 = [1] \<and>
   recorded_views demo_db_lost_update 1 = 2"
  by (simp add: retrieve_step_def get_object_def get_queryset_def demo_call_def anonymous_def
      demo_db_fresh_def demo_db_lost_update_def demo_photo_def PhotoView_create_def
      save_views_count_def stored_views_count_def recorded_views_def Let_def)

text \<open>
  C2, amended. Calls that run one after the other, each for photo \<open>pk\<close> and each
  allowed to see it, raise the stored count by exactly their number and record as many
  views. When calls overlap, in any schedule and for any mix of calls, the stored count
  of a photo grows by at most the number of views recorded for it since the start.
\<close>

theorem views_count_sequential_exact_overlapping_bounded:
  assumes "stored_views_count d pk = [v]"
  shows "((\<forall>c \<in> set cs. call_pk c = pk \<and> get_object d (call_request c) pk \<noteq> None) \<longrightarrow>
            stored_views_count (retrieve_all d cs) pk = [v + int (length cs)] \<and>
            recorded_views (retrieve_all d cs) pk = recorded_views d pk + length cs) \<and>
         (\<exists>v'. stored_views_count
                  (fst (run_schedule calls sched (d, replicate (length calls) Pending))) pk = [v'] \<and>
               v' - v \<le>
                 int (recorded_views
                        (fst (run_schedule calls sched (d, replicate (length calls) Pending))) pk)
                 - int (recorded_views d pk))"
proof (intro conjI impI)
  assume "\<forall>c \<in> set cs. call_pk c = pk \<and> get_object d (call_request c) pk \<noteq> None"
  from retrieve_all_exact [OF assms this]
  show "stored_views_count (retrieve_all d cs) pk = [v + int (length cs)]"
    and "recorded_views (retrieve_all d cs) pk = recorded_views d pk + length cs"
    by simp_all
next
  obtain d' sts' where
    "run_schedule calls sched (d, replicate (length calls) Pending) = (d', sts')"
    by (cases "run_schedule calls sched (d, replicate (length calls) Pending)")
  with run_schedule_bound [OF assms this] 
  show "\<exists>v'. stored_views_count
                (fst (run_schedule calls sched (d, replicate (length calls) Pending))) pk = [v'] \<and>
             v' - v \<le>
               int (recorded_views
                      (fst (run_schedule calls sched (d, replicate (length calls) Pending))) pk)
               - int (recorded_views d pk)"
    by simp
qed

theorem views_count_sequential_exact_overlapping_bounded_witness:
  "stored_views_count demo_db_fresh 1 = [0] \<and>
   call_pk (demo_call 10) = 1 \<and> call_pk (demo_call 11) = 1 \<and>
   get_object demo_db_fresh (call_request (demo_call 10)) 1 \<noteq> None \<and>
   get_object demo_db_fresh (call_request (demo_call 11)) 1 \<noteq> None \<and>
   stored_views_count (retrieve_all demo_db_fresh [demo_call 10, demo_call 11]) 1 = [2] \<and>
   recorded_views (retrieve_all demo_db_fresh [demo_call 10, demo_call 11]) 1 = 2"
proof -
  have h: "stored_views_count demo_db_fresh 1 = [0]"
    by (simp add: stored_views_count_def demo_db_fresh_def demo_photo_def)
  have vis: "call_pk (demo_call 10) = 1 \<and> call_pk (demo_call 11) = 1 \<and>
      get_object demo_db_fresh (call_request (demo_call 10)) 1 \<noteq> None \<and>
      get_object demo_db_fresh (call_request (demo_call 11)) 1 \<noteq> None"
    by (simp add: get_object_def get_queryset_def demo_call_def anonymous_def demo_db_fresh_def
        demo_photo_def)
  have r: "recorded_views demo_db_fresh 1 = 0"
    by (simp add: recorded_views_def demo_db_fresh_def)
  from views_count_sequential_exact_overlapping_bounded
    [OF h, of "[demo_call 10, demo_call 11]" "[]" "[]"] vis r h
  show ?thesis by simp
qed

end
